theory Spec2Isabelle
  imports Main
begin

section \<open>Snortsmith rule generation utilities\<close>

text \<open>
  A shallow embedding of \<^verbatim>\<open>snortsmith_rulegen/_utils.py\<close>. Python strings are
  modelled as \<^typ>\<open>string\<close>; a character stands for the code point of the same number,
  so the model covers the code points below 256. Every \<^verbatim>\<open>raise ValueError\<close> is a
  left injection into \<open>error + 'a\<close>. The leading underscore of the Python names is dropped,
  since an Isabelle name cannot start with one.
\<close>

subsection \<open>Python values and errors\<close>

datatype pyval = PyNone | PyBool bool | PyInt int | PyStr string

text \<open>Python's truth value of an object, as \<^verbatim>\<open>bool(x)\<close> computes it.\<close>

fun truthy :: "pyval \<Rightarrow> bool" where
  "truthy PyNone = False"
| "truthy (PyBool b) = b"
| "truthy (PyInt i) = (i \<noteq> 0)"
| "truthy (PyStr s) = (s \<noteq> [])"

text \<open>
  The first four constructors are Python's \<^verbatim>\<open>ValueError\<close>: \<open>ValueError m\<close> is
  raised by this module with message \<open>m\<close>, \<open>InvalidLiteral s\<close> is raised by the builtin
  \<^verbatim>\<open>int(s)\<close> (message \<^verbatim>\<open>invalid literal for int() with base 10:\<close> followed by
  \<^verbatim>\<open>repr(s)\<close>), \<open>DigitLimit\<close> by a conversion between an integer and its decimal
  text that has too many digits (message \<^verbatim>\<open>Exceeds the limit (4300 digits) for integer
  string conversion\<close>), \<open>UnpackError\<close> by the assignment of a list that is too short to
  two names. \<open>KeyError c\<close> is raised by a dictionary that has no entry for \<open>c\<close>.
\<close>

datatype error =
  ValueError string | InvalidLiteral string | DigitLimit | UnpackError | KeyError char

subsection \<open>Characters and strings\<close>

text \<open>
  \<^verbatim>\<open>str.isspace\<close>, \<^verbatim>\<open>str.strip\<close> and the regular expression class \<^verbatim>\<open>\s\<close>
  agree on the white space below code point 256: the ASCII blanks, the four separators
  \<open>0x1C\<close> to \<open>0x1F\<close>, NEL and the no-break space.
\<close>

definition whitespace :: "char list" where
  "whitespace =
     [CHR 0x09, CHR 0x0A, CHR 0x0B, CHR 0x0C, CHR 0x0D, CHR 0x1C, CHR 0x1D, CHR 0x1E, CHR
      0x1F, CHR 0x20, CHR 0x85, CHR 0xA0]"

definition isspace :: "char \<Rightarrow> bool" where
  "isspace c = (c \<in> set whitespace)"

text \<open>
  \<^verbatim>\<open>str.isdecimal\<close> and the class \<^verbatim>\<open>\d\<close>: the ten ASCII digits.
  \<^verbatim>\<open>str.isdigit\<close> also accepts the superscript digits \<open>0xB2\<close>, \<open>0xB3\<close> and
  \<open>0xB9\<close>.
\<close>

definition isdecimal :: "char \<Rightarrow> bool" where
  "isdecimal c = (c \<in> set ''0123456789'')"

definition isdigit_char :: "char \<Rightarrow> bool" where
  "isdigit_char c = (isdecimal c \<or> c \<in> set [CHR 0xB2, CHR 0xB3, CHR 0xB9])"

text \<open>\<^verbatim>\<open>s.isdigit()\<close>: at least one character, all of them digits.\<close>

definition isdigit :: "string \<Rightarrow> bool" where
  "isdigit s = (s \<noteq> [] \<and> list_all isdigit_char s)"

definition digit_value :: "char \<Rightarrow> nat" where
  "digit_value c = of_char c - 48"

definition uppercase :: "char list" where
  "uppercase = ''ABCDEFGHIJKLMNOPQRSTUVWXYZ'' @
     [CHR 0xC0, CHR 0xC1, CHR 0xC2, CHR 0xC3, CHR 0xC4, CHR 0xC5, CHR 0xC6, CHR 0xC7, CHR
      0xC8, CHR 0xC9, CHR 0xCA, CHR 0xCB, CHR 0xCC, CHR 0xCD, CHR 0xCE, CHR 0xCF, CHR 0xD0,
      CHR 0xD1, CHR 0xD2, CHR 0xD3, CHR 0xD4, CHR 0xD5, CHR 0xD6, CHR 0xD8, CHR 0xD9, CHR
      0xDA, CHR 0xDB, CHR 0xDC, CHR 0xDD, CHR 0xDE]"

definition lowercase :: "char list" where
  "lowercase = ''abcdefghijklmnopqrstuvwxyz'' @
     [CHR 0xE0, CHR 0xE1, CHR 0xE2, CHR 0xE3, CHR 0xE4, CHR 0xE5, CHR 0xE6, CHR 0xE7, CHR
      0xE8, CHR 0xE9, CHR 0xEA, CHR 0xEB, CHR 0xEC, CHR 0xED, CHR 0xEE, CHR 0xEF, CHR 0xF0,
      CHR 0xF1, CHR 0xF2, CHR 0xF3, CHR 0xF4, CHR 0xF5, CHR 0xF6, CHR 0xF8, CHR 0xF9, CHR
      0xFA, CHR 0xFB, CHR 0xFC, CHR 0xFD, CHR 0xFE]"

text \<open>\<^verbatim>\<open>str.lower\<close>: below code point 256 every upper-case letter has one lower-case form.\<close>

definition lower_char :: "char \<Rightarrow> char" where
  "lower_char c = (case map_of (zip uppercase lowercase) c of Some d \<Rightarrow> d | None \<Rightarrow> c)"

definition lower :: "string \<Rightarrow> string" where
  "lower s = map lower_char s"

text \<open>
  \<^verbatim>\<open>str.upper\<close>: the sharp s \<open>0xDF\<close> becomes two letters. The upper-case forms of
  \<open>0xB5\<close> and \<open>0xFF\<close> lie above code point 255 and have no counterpart here; they
  are left as they are. The only call of \<open>upper\<close> in this module is on a string made of
  ASCII characters.
\<close>

definition upper_char :: "char \<Rightarrow> string" where
  "upper_char c =
     (if c = CHR 0xDF then ''SS''
      else case map_of (zip lowercase uppercase) c of Some d \<Rightarrow> [d] | None \<Rightarrow> [c])"

definition upper :: "string \<Rightarrow> string" where
  "upper s = concat (map upper_char s)"

text \<open>\<^verbatim>\<open>s.strip()\<close> removes the white space at both ends.\<close>

definition lstrip :: "string \<Rightarrow> string" where
  "lstrip s = dropWhile isspace s"

definition rstrip :: "string \<Rightarrow> string" where
  "rstrip s = rev (dropWhile isspace (rev s))"

definition strip :: "string \<Rightarrow> string" where
  "strip s = rstrip (lstrip s)"

text \<open>
  \<^verbatim>\<open>s.split(sep)\<close> for a separator of one character: the pieces between the separators,
  empty pieces included; \<open>cur\<close> collects the current piece in reverse.
\<close>

fun split_acc :: "char \<Rightarrow> string \<Rightarrow> string \<Rightarrow> string list" where
  "split_acc sep cur [] = [rev cur]"
| "split_acc sep cur (c # cs) =
     (if c = sep then rev cur # split_acc sep [] cs else split_acc sep (c # cur) cs)"

definition split :: "char \<Rightarrow> string \<Rightarrow> string list" where
  "split sep s = split_acc sep [] s"

text \<open>\<^verbatim>\<open>s.split(sep, 1)\<close>: at most one split, at the first separator.\<close>

definition split1 :: "char \<Rightarrow> string \<Rightarrow> string list" where
  "split1 sep s =
     (if sep \<in> set s
      then [takeWhile (\<lambda>c. c \<noteq> sep) s, drop 1 (dropWhile (\<lambda>c. c \<noteq> sep) s)]
      else [s])"

text \<open>
  \<^verbatim>\<open>s.isidentifier()\<close>: a start character (a letter or the underscore) followed by
  continuation characters (start characters, decimal digits and the middle dot \<open>0xB7\<close>).
  Below code point 256 the letters are the ASCII letters, \<open>0xAA\<close>, \<open>0xB5\<close>, \<open>0xBA\<close> and
  \<open>0xC0\<close> to \<open>0xFF\<close> without the two operators \<open>0xD7\<close> and \<open>0xF7\<close>.
\<close>

definition id_start :: "char \<Rightarrow> bool" where
  "id_start c =
     (let n = (of_char c :: nat)
      in (65 \<le> n \<and> n \<le> 90) \<or> n = 95 \<or> (97 \<le> n \<and> n \<le> 122) \<or>
         n = 170 \<or> n = 181 \<or> n = 186 \<or>
         (192 \<le> n \<and> n \<le> 214) \<or> (216 \<le> n \<and> n \<le> 246) \<or> 248 \<le> n)"

definition id_continue :: "char \<Rightarrow> bool" where
  "id_continue c = (id_start c \<or> isdecimal c \<or> c = CHR 0xB7)"

definition isidentifier :: "string \<Rightarrow> bool" where
  "isidentifier s = (case s of [] \<Rightarrow> False | c # cs \<Rightarrow> id_start c \<and> list_all id_continue cs)"

subsection \<open>Integers and their decimal text\<close>

text \<open>
  The interpreter limits the conversions between an integer and its decimal text: with
  the default setting, a conversion of more than 4300 digits raises \<^verbatim>\<open>ValueError\<close>.
\<close>

definition int_max_str_digits :: nat where
  "int_max_str_digits = 4300"

text \<open>
  \<^verbatim>\<open>str(n)\<close> for an integer, which is also what an f-string makes of it: the decimal
  digits, after a minus sign when negative. The limit counts the digits without the sign.
\<close>

function str_nat :: "nat \<Rightarrow> string" where
  "str_nat n =
     (if n < 10 then [''0123456789'' ! n] else str_nat (n div 10) @ [''0123456789'' ! (n mod 10)])"
  by pat_completeness auto
termination
  by (relation "measure (\<lambda>n. n)") auto

declare str_nat.simps [simp del]

definition str_int :: "int \<Rightarrow> error + string" where
  "str_int i =
     (if length (str_nat (nat \<bar>i\<bar>)) > int_max_str_digits then Inl DigitLimit
      else Inr (if i < 0 then CHR ''-'' # str_nat (nat \<bar>i\<bar>) else str_nat (nat \<bar>i\<bar>)))"

text \<open>
  \<^verbatim>\<open>int(s)\<close> in base 10. White space before the number is skipped, then an optional
  sign. The white space of \<open>int\<close> is narrower than that of \<open>strip\<close>: the separators
  \<open>0x1C\<close> to \<open>0x1F\<close> are not part of it. The number may not start with an underscore.
  \<open>int_scan\<close> then reads the digits and the underscores up to the first other character:
  \<open>underscore\<close> tells whether the character before was an underscore, \<open>digits\<close> counts
  the digits and \<open>acc\<close> is their value; two underscores in a row, or an underscore at the
  end of the run, are an error. Next comes the limit on the number of digits, leading zeros
  included, and only then the test that at least one digit was read and that nothing but
  white space follows.
\<close>

definition int_whitespace :: "char list" where
  "int_whitespace = [CHR 0x09, CHR 0x0A, CHR 0x0B, CHR 0x0C, CHR 0x0D, CHR 0x20, CHR 0x85, CHR 0xA0]"

fun int_scan :: "bool \<Rightarrow> nat \<Rightarrow> nat \<Rightarrow> string \<Rightarrow> (nat \<times> nat \<times> string) option" where
  "int_scan underscore digits acc [] = (if underscore then None else Some (digits, acc, []))"
| "int_scan underscore digits acc (c # cs) =
     (if isdecimal c then int_scan False (Suc digits) (10 * acc + digit_value c) cs
      else if c = CHR ''_'' then (if underscore then None else int_scan True digits acc cs)
      else if underscore then None
      else Some (digits, acc, c # cs))"

definition int_body :: "string \<Rightarrow> string \<Rightarrow> error + nat" where
  "int_body s t =
     (if take 1 t = ''_'' then Inl (InvalidLiteral s)
      else case int_scan False 0 0 t of
             None \<Rightarrow> Inl (InvalidLiteral s)
           | Some (digits, acc, rest) \<Rightarrow>
               if digits > int_max_str_digits then Inl DigitLimit
               else if digits = 0 then Inl (InvalidLiteral s)
               else if dropWhile (\<lambda>c. c \<in> set int_whitespace) rest \<noteq> [] then Inl (InvalidLiteral s)
               else Inr acc)"

definition py_int :: "string \<Rightarrow> error + int" where
  "py_int s =
     (case dropWhile (\<lambda>c. c \<in> set int_whitespace) s of
        [] \<Rightarrow> Inl (InvalidLiteral s)
      | c # cs \<Rightarrow>
          if c = CHR ''-'' then
            (case int_body s cs of Inl e \<Rightarrow> Inl e | Inr n \<Rightarrow> Inr (- int n))
          else if c = CHR ''+'' then
            (case int_body s cs of Inl e \<Rightarrow> Inl e | Inr n \<Rightarrow> Inr (int n))
          else
            (case int_body s (c # cs) of Inl e \<Rightarrow> Inl e | Inr n \<Rightarrow> Inr (int n)))"

subsection \<open>Field validators\<close>

text \<open>
  \<^verbatim>\<open>_validate_port\<close>. The body of the \<^verbatim>\<open>try\<close> block is \<open>port_try\<close>; both the
  error of \<^verbatim>\<open>int(value)\<close> and the \<^verbatim>\<open>ValueError\<close> the block raises itself for a
  number out of range reach the \<^verbatim>\<open>except ValueError\<close> clause, which raises the
  error the caller sees.
\<close>

definition port_try :: "string \<Rightarrow> error + string" where
  "port_try value =
     (case py_int value of
        Inl e \<Rightarrow> Inl e
      | Inr port \<Rightarrow>
          if 0 \<le> port \<and> port \<le> 65535 then str_int port
          else Inl (ValueError ''Port must be between 0 and 65535.''))"

definition validate_port :: "string \<Rightarrow> error + string" where
  "validate_port value =
     (if lower value = ''any'' then Inr ''any''
      else case port_try value of
             Inr r \<Rightarrow> Inr r
           | Inl e \<Rightarrow> Inl (ValueError ''Invalid port: must be an integer or 'any'.''))"

text \<open>
  \<^verbatim>\<open>_validate_offset_depth\<close>. \<open>int_if_digits\<close> is the conditional expression
  \<^verbatim>\<open>int(x) if x and x.isdigit() else None\<close>, where \<^verbatim>\<open>int(x)\<close> may raise.
\<close>

definition int_if_digits :: "string option \<Rightarrow> error + int option" where
  "int_if_digits x =
     (case x of
        None \<Rightarrow> Inr None
      | Some s \<Rightarrow>
          if s \<noteq> [] \<and> isdigit s
          then (case py_int s of Inl e \<Rightarrow> Inl e | Inr n \<Rightarrow> Inr (Some n))
          else Inr None)"

definition validate_offset_depth ::
  "string option \<Rightarrow> string option \<Rightarrow> error + (int option \<times> int option)" where
  "validate_offset_depth offset depth =
     (case int_if_digits offset of
        Inl e \<Rightarrow> Inl e
      | Inr offset_val \<Rightarrow>
          (case int_if_digits depth of
             Inl e \<Rightarrow> Inl e
           | Inr depth_val \<Rightarrow>
               (case (offset_val, depth_val) of
                  (Some ov, Some dv) \<Rightarrow>
                    if ov > dv then Inl (ValueError ''Offset cannot be greater than depth.'')
                    else Inr (offset_val, depth_val)
                | _ \<Rightarrow> Inr (offset_val, depth_val))))"

text \<open>\<^verbatim>\<open>_validate_flags\<close>.\<close>

definition allowed_chars :: "char set" where
  "allowed_chars = set ''FSRPAUCE0*+!,''"

definition validate_flags :: "string \<Rightarrow> error + string" where
  "validate_flags flags =
     (if list_all (\<lambda>c. c \<in> allowed_chars) flags then Inr (upper flags)
      else Inl (ValueError (''Invalid character in TCP flags: '' @ flags)))"

text \<open>
  \<^verbatim>\<open>_validate_metadata\<close>. \<open>metadata_parts\<close> is the list comprehension, \<open>check_parts\<close>
  the loop over it. The assignment \<^verbatim>\<open>key, val = part.split(" ", 1)\<close> needs a list of two
  pieces.
\<close>

definition metadata_parts :: "string \<Rightarrow> string list" where
  "metadata_parts data =
     map strip (filter (\<lambda>item. strip item \<noteq> []) (split (CHR '','') data))"

definition segment_message :: "string \<Rightarrow> string" where
  "segment_message part =
     ''Invalid metadata segment '' @ [CHR 0x27] @ part @ [CHR 0x27] @
     ''. Each entry should be a key-value pair like 'key value'.''"

definition key_message :: "string \<Rightarrow> string" where
  "key_message key =
     ''Invalid metadata key '' @ [CHR 0x27] @ key @ [CHR 0x27] @
     ''. Keys should be alphanumeric and start with a letter.''"

definition missing_message :: "string \<Rightarrow> string" where
  "missing_message key =
     ''Missing value for metadata key '' @ [CHR 0x27] @ key @ [CHR 0x27] @ ''.''"

fun check_parts :: "string list \<Rightarrow> error + unit" where
  "check_parts [] = Inr ()"
| "check_parts (part # parts) =
     (if CHR '' '' \<notin> set part then Inl (ValueError (segment_message part))
      else case split1 (CHR '' '') part of
             [key, val] \<Rightarrow>
               if \<not> isidentifier key then Inl (ValueError (key_message key))
               else if val = [] then Inl (ValueError (missing_message key))
               else check_parts parts
           | _ \<Rightarrow> Inl UnpackError)"

definition validate_metadata :: "string \<Rightarrow> error + string" where
  "validate_metadata data =
     (case check_parts (metadata_parts data) of Inl e \<Rightarrow> Inl e | Inr u \<Rightarrow> Inr data)"

text \<open>
  \<^verbatim>\<open>_validate_msg\<close>. The dictionary \<open>reserved\<close> maps each reserved character to its
  replacement; \<open>escape_char\<close> looks the matched character up. The pattern is a negative
  look-behind for a backslash followed by one character of the class \<open>pattern_class\<close>.
  \<^verbatim>\<open>re.sub\<close> goes through the input from left to right; the look-behind reads the
  character before the current one in the input, which \<open>msg_sub\<close> carries as \<open>prev\<close>.
\<close>

definition reserved :: "(char \<times> string) list" where
  "reserved =
     [(CHR '';'', [CHR 0x5C, CHR '';'']),
      (CHR 0x5C, [CHR 0x5C, CHR 0x5C]),
      (CHR 0x22, [CHR 0x5C, CHR 0x22]),
      (CHR ''|'', [CHR 0x5C, CHR ''|'']),
      (CHR 0x27, [CHR 0x5C, CHR '';''])]"

definition escape_char :: "char \<Rightarrow> error + string" where
  "escape_char c = (case map_of reserved c of None \<Rightarrow> Inl (KeyError c) | Some r \<Rightarrow> Inr r)"

definition pattern_class :: "char list" where
  "pattern_class = [CHR '';'', CHR 0x5C, CHR 0x22, CHR ''|'', CHR 0x27]"

fun msg_sub :: "char option \<Rightarrow> string \<Rightarrow> error + string" where
  "msg_sub prev [] = Inr []"
| "msg_sub prev (c # cs) =
     (if prev \<noteq> Some (CHR 0x5C) \<and> c \<in> set pattern_class
      then (case escape_char c of
              Inl e \<Rightarrow> Inl e
            | Inr r \<Rightarrow> (case msg_sub (Some c) cs of Inl e \<Rightarrow> Inl e | Inr rest \<Rightarrow> Inr (r @ rest)))
      else (case msg_sub (Some c) cs of Inl e \<Rightarrow> Inl e | Inr rest \<Rightarrow> Inr (c # rest)))"

definition validate_msg :: "string \<Rightarrow> error + string" where
  "validate_msg value = msg_sub None value"

subsection \<open>Revision lookup\<close>

text \<open>
  \<^verbatim>\<open>_get_latest_revision\<close>. The file system is a map from a path to the lines that
  iterating over the open text file yields, each with its line end; a path outside the
  domain is one for which \<^verbatim>\<open>os.path.exists\<close> is false. A path in the domain is
  a text file that can be opened and read.

  The pattern \<^verbatim>\<open>sid:{sid};\s*rev:(\d+)\<close> is the literal text with the decimal form of
  \<open>sid\<close>, white space, the literal \<^verbatim>\<open>rev:\<close> and a group of digits. The f-string
  converts \<open>sid\<close> once, before the loop; \<open>sid_text\<close> is its text. \<open>match_here\<close>
  matches the pattern at the start of a string and gives the text of the group. Both
  repetitions are greedy: the character after the white space must be the \<open>r\<close> of
  \<^verbatim>\<open>rev:\<close>, which is no white space, so only the longest run of white space can match,
  and the group extends over all the digits that follow. \<open>search\<close> tries the positions of
  the line from the left and stops at the first match, as \<^verbatim>\<open>rev_pattern.search(line)\<close>
  does.
\<close>

fun strip_prefix :: "string \<Rightarrow> string \<Rightarrow> string option" where
  "strip_prefix [] s = Some s"
| "strip_prefix (p # ps) [] = None"
| "strip_prefix (p # ps) (c # cs) = (if p = c then strip_prefix ps cs else None)"

definition match_here :: "string \<Rightarrow> string \<Rightarrow> string option" where
  "match_here sid_text s =
     (case strip_prefix (''sid:'' @ sid_text @ '';'') s of
        None \<Rightarrow> None
      | Some r \<Rightarrow>
          (case strip_prefix ''rev:'' (dropWhile isspace r) of
             None \<Rightarrow> None
           | Some d \<Rightarrow> if takeWhile isdecimal d = [] then None else Some (takeWhile isdecimal d)))"

fun search :: "string \<Rightarrow> string \<Rightarrow> string option" where
  "search sid_text [] = match_here sid_text []"
| "search sid_text (c # cs) =
     (case match_here sid_text (c # cs) of Some g \<Rightarrow> Some g | None \<Rightarrow> search sid_text cs)"

text \<open>
  The loop over the lines, with the variable \<open>max_rev\<close>; \<^verbatim>\<open>int(match.group(1))\<close> may
  raise.
\<close>

fun scan_lines :: "string \<Rightarrow> int \<Rightarrow> string list \<Rightarrow> error + int" where
  "scan_lines sid_text max_rev [] = Inr max_rev"
| "scan_lines sid_text max_rev (line # f) =
     (case search sid_text line of
        None \<Rightarrow> scan_lines sid_text max_rev f
      | Some g \<Rightarrow>
          (case py_int g of
             Inl e \<Rightarrow> Inl e
           | Inr rev_val \<Rightarrow> scan_lines sid_text (max max_rev rev_val) f))"

definition get_latest_revision :: "(string \<rightharpoonup> string list) \<Rightarrow> string \<Rightarrow> int \<Rightarrow> error + int" where
  "get_latest_revision fs outfile sid =
     (case fs outfile of
        None \<Rightarrow> Inr 1
      | Some f \<Rightarrow>
          (case str_int sid of
             Inl e \<Rightarrow> Inl e
           | Inr sid_text \<Rightarrow>
               (case scan_lines sid_text 0 f of
                  Inl e \<Rightarrow> Inl e
                | Inr max_rev \<Rightarrow> Inr (if max_rev \<noteq> 0 then max_rev + 1 else 1))))"

text \<open>
  The notions the properties of the revision lookup are stated with; they describe the
  marker by the shape of the text and do not refer to the functions above.

  \<open>decimal\<close> is the number a string of digits denotes. \<open>sid_numeral sid t\<close> says that
  \<open>t\<close> is the decimal numeral of \<open>sid\<close>: digits without a leading zero, after a minus
  sign when \<open>sid\<close> is negative.

  \<open>marker t s g\<close> says that \<open>s\<close> starts with the marker for the identifier text \<open>t\<close>:
  the literal \<^verbatim>\<open>sid:\<close>, \<open>t\<close>, a semicolon, white space, the literal \<^verbatim>\<open>rev:\<close> and
  the digits \<open>g\<close>, at least one and as many as there are. \<open>occurrence t line n g\<close> says
  that the marker occurs at position \<open>n\<close> of the line, and \<open>first_occurrence t line g\<close>
  that \<open>g\<close> are the digits of the leftmost occurrence. \<open>first_revisions\<close> holds the
  revision numbers of the first occurrences of the lines of a file, \<open>all_revisions\<close> those
  of all occurrences.
\<close>

definition decimal :: "string \<Rightarrow> int" where
  "decimal ds = int (foldl (\<lambda>acc c. 10 * acc + digit_value c) 0 ds)"

definition sid_numeral :: "int \<Rightarrow> string \<Rightarrow> bool" where
  "sid_numeral sid t \<longleftrightarrow>
     (\<exists>ds. ds \<noteq> [] \<and> list_all isdecimal ds \<and> (take 1 ds = ''0'' \<longrightarrow> ds = ''0'') \<and>
        decimal ds = \<bar>sid\<bar> \<and> t = (if sid < 0 then CHR ''-'' # ds else ds))"

definition marker :: "string \<Rightarrow> string \<Rightarrow> string \<Rightarrow> bool" where
  "marker t s g \<longleftrightarrow>
     (\<exists>ws post. s = ''sid:'' @ t @ '';'' @ ws @ ''rev:'' @ g @ post \<and>
        list_all isspace ws \<and> g \<noteq> [] \<and> list_all isdecimal g \<and>
        list_all (\<lambda>c. \<not> isdecimal c) (take 1 post))"

definition occurrence :: "string \<Rightarrow> string \<Rightarrow> nat \<Rightarrow> string \<Rightarrow> bool" where
  "occurrence t line n g \<longleftrightarrow> n \<le> length line \<and> marker t (drop n line) g"

definition first_occurrence :: "string \<Rightarrow> string \<Rightarrow> string \<Rightarrow> bool" where
  "first_occurrence t line g \<longleftrightarrow>
     (\<exists>n. occurrence t line n g \<and> (\<forall>m g'. m < n \<longrightarrow> \<not> occurrence t line m g'))"

definition first_revisions :: "string \<Rightarrow> string list \<Rightarrow> int set" where
  "first_revisions t f = {decimal g |line g. line \<in> set f \<and> first_occurrence t line g}"

definition all_revisions :: "string \<Rightarrow> string list \<Rightarrow> int set" where
  "all_revisions t f = {decimal g |line n g. line \<in> set f \<and> occurrence t line n g}"

text \<open>One more than the largest of a set of revision numbers, or 1 for the empty set.\<close>

definition next_revision :: "int set \<Rightarrow> int" where
  "next_revision revs = (if revs = {} then 1 else 1 + Max revs)"

text \<open>
  Two lists that follow the functions above, for computing with the notions just given:
  the groups of all matches in a line, from left to right, and the revision numbers of the
  lines of a file that match.
\<close>

fun occurrences :: "string \<Rightarrow> string \<Rightarrow> string list" where
  "occurrences t [] = []"
| "occurrences t (c # cs) =
     (case match_here t (c # cs) of Some g \<Rightarrow> [g] | None \<Rightarrow> []) @ occurrences t cs"

definition matching_revisions :: "string \<Rightarrow> string list \<Rightarrow> int list" where
  "matching_revisions t f = List.map_filter (\<lambda>line. map_option decimal (search t line)) f"

subsection \<open>Configuration resolution\<close>

text \<open>
  Modelled from the spec: \<^verbatim>\<open>_get_config_value\<close> lives in
  \<^verbatim>\<open>snortsmith_rulegen/_config.py\<close>, which is not part of the sources at hand. The
  specification describes it as the value found under the key in the configuration mapping,
  else the supplied fallback.
\<close>

definition get_config_value :: "(string \<rightharpoonup> pyval) \<Rightarrow> string \<Rightarrow> pyval \<Rightarrow> pyval" where
  "get_config_value config key fallback =
     (case config key of Some v \<Rightarrow> v | None \<Rightarrow> fallback)"

text \<open>
  \<^verbatim>\<open>return arg_val if arg_val is not None else _get_config_value(config, key, fallback)\<close>
\<close>

definition resolve :: "pyval \<Rightarrow> (string \<rightharpoonup> pyval) \<Rightarrow> string \<Rightarrow> pyval \<Rightarrow> pyval" where
  "resolve arg_val config key fallback =
     (if arg_val \<noteq> PyNone then arg_val else get_config_value config key fallback)"

section \<open>Properties\<close>

subsection \<open>Integer conversion\<close>

lemma isdecimal_not_int_whitespace: "isdecimal c \<Longrightarrow> c \<notin> set int_whitespace"
  by (auto simp: isdecimal_def int_whitespace_def)

lemma isdecimal_not_sign:
  "isdecimal c \<Longrightarrow> c \<noteq> CHR ''-'' \<and> c \<noteq> CHR ''+'' \<and> c \<noteq> CHR ''_''"
  by (auto simp: isdecimal_def)

lemma int_scan_decimal:
  "list_all isdecimal ds \<Longrightarrow> ds \<noteq> [] \<or> \<not> underscore \<Longrightarrow>
     int_scan underscore digits acc ds =
       Some (digits + length ds, foldl (\<lambda>a c. 10 * a + digit_value c) acc ds, [])"
  by (induction ds arbitrary: underscore digits acc) auto

text \<open>
  On a string of decimal digits that is not empty \<^verbatim>\<open>int\<close> gives the number the
  digits denote, unless there are more digits than the limit allows. The group of a
  match of the revision pattern is such a string.
\<close>

lemma py_int_decimal:
  assumes "ds \<noteq> []" and "list_all isdecimal ds"
  shows "py_int ds =
    (if length ds > int_max_str_digits then Inl DigitLimit else Inr (decimal ds))"
proof -
  from assms(1) obtain c cs where ds: "ds = c # cs" by (cases ds) auto
  with assms(2) have c: "isdecimal c" by simp
  then have sign: "c \<noteq> CHR ''-''" "c \<noteq> CHR ''+''" "c \<noteq> CHR ''_''"
    using isdecimal_not_sign by auto
  from c have "c \<notin> set int_whitespace" by (rule isdecimal_not_int_whitespace)
  then have strip: "dropWhile (\<lambda>c. c \<in> set int_whitespace) (c # cs) = c # cs" by simp
  have scan: "int_scan False 0 0 (c # cs) =
      Some (length (c # cs), foldl (\<lambda>a c. 10 * a + digit_value c) 0 (c # cs), [])"
    using int_scan_decimal [of "c # cs" False 0 0] assms(2) ds by simp
  have "int_body (c # cs) (c # cs) =
      (if length (c # cs) > int_max_str_digits then Inl DigitLimit
       else Inr (foldl (\<lambda>a c. 10 * a + digit_value c) 0 (c # cs)))"
    unfolding int_body_def scan using sign(3) by simp
  then show ?thesis
    unfolding py_int_def ds strip using sign by (simp add: decimal_def)
qed

lemma decimal_nonneg: "0 \<le> decimal ds"
  by (simp add: decimal_def)

lemma decimal_snoc: "decimal (ds @ [d]) = 10 * decimal ds + int (digit_value d)"
  by (simp add: decimal_def)

lemma digit_char:
  assumes "m < 10"
  shows "isdecimal (''0123456789'' ! m)" and "digit_value (''0123456789'' ! m) = m"
    and "''0123456789'' ! m = CHR ''0'' \<longleftrightarrow> m = 0"
proof -
  from assms have "m = 0 \<or> m = 1 \<or> m = 2 \<or> m = 3 \<or> m = 4 \<or> m = 5 \<or> m = 6 \<or> m = 7 \<or>
      m = 8 \<or> m = 9"
    by arith
  then show "isdecimal (''0123456789'' ! m)" and "digit_value (''0123456789'' ! m) = m"
    and "''0123456789'' ! m = CHR ''0'' \<longleftrightarrow> m = 0"
    by (auto simp: isdecimal_def digit_value_def)
qed

text \<open>
  The decimal text of a number consists of digits, has no leading zero, denotes the
  number, and has at most \<open>k\<close> digits exactly when the number is below \<open>10 ^ k\<close>.
\<close>

lemma str_nat_nonempty: "str_nat n \<noteq> []"
  by (subst str_nat.simps) simp

lemma str_nat_isdecimal: "list_all isdecimal (str_nat n)"
proof (induction n rule: str_nat.induct)
  case (1 n)
  show ?case
  proof (cases "n < 10")
    case True
    then show ?thesis by (subst str_nat.simps) (simp add: digit_char)
  next
    case False
    with 1 have "list_all isdecimal (str_nat (n div 10))" by simp
    moreover have "isdecimal (''0123456789'' ! (n mod 10))" by (simp add: digit_char)
    ultimately show ?thesis using False by (subst str_nat.simps) simp
  qed
qed

lemma str_nat_decimal: "decimal (str_nat n) = int n"
proof (induction n rule: str_nat.induct)
  case (1 n)
  show ?case
  proof (cases "n < 10")
    case True
    then show ?thesis by (subst str_nat.simps) (simp add: decimal_def digit_char)
  next
    case False
    with 1 have "decimal (str_nat (n div 10)) = int (n div 10)" by simp
    moreover have "digit_value (''0123456789'' ! (n mod 10)) = n mod 10"
      by (simp add: digit_char)
    ultimately have "decimal (str_nat (n div 10) @ [''0123456789'' ! (n mod 10)]) =
        10 * int (n div 10) + int (n mod 10)"
      by (simp only: decimal_snoc)
    also have "\<dots> = int n" by (simp add: zdiv_int zmod_int)
    finally show ?thesis using False by (subst str_nat.simps) simp
  qed
qed

lemma str_nat_no_leading_zero: "take 1 (str_nat n) = ''0'' \<Longrightarrow> str_nat n = ''0''"
proof (induction n rule: str_nat.induct)
  case (1 n)
  show ?case
  proof (cases "n < 10")
    case True
    with "1.prems" have "''0123456789'' ! n = CHR ''0''"
      by (subst (asm) str_nat.simps) simp
    with True have "n = 0" by (simp add: digit_char)
    then show ?thesis by (subst str_nat.simps) simp
  next
    case False
    from str_nat_nonempty [of "n div 10"] obtain x xs where x: "str_nat (n div 10) = x # xs"
      by (cases "str_nat (n div 10)") auto
    with "1.prems" False have "take 1 (str_nat (n div 10)) = ''0''"
      by (subst (asm) str_nat.simps) simp
    with 1 False have "str_nat (n div 10) = ''0''" by simp
    then have "decimal (str_nat (n div 10)) = 0" by (simp add: decimal_def digit_value_def)
    then have "n div 10 = 0" by (simp add: str_nat_decimal)
    with False show ?thesis by simp
  qed
qed

lemma str_nat_length: "0 < k \<Longrightarrow> length (str_nat n) \<le> k \<longleftrightarrow> n < 10 ^ k"
proof (induction n arbitrary: k rule: str_nat.induct)
  case (1 n)
  show ?case
  proof (cases "n < 10")
    case True
    have "(10::nat) ^ 1 \<le> 10 ^ k" using "1.prems" by (intro power_increasing) simp_all
    with True have "n < 10 ^ k" by simp
    moreover have "length (str_nat n) = 1" using True by (subst str_nat.simps) simp
    ultimately show ?thesis using "1.prems" by simp
  next
    case False
    have len: "length (str_nat n) = Suc (length (str_nat (n div 10)))"
      using False by (subst str_nat.simps) simp
    show ?thesis
    proof (cases k)
      case 0
      with "1.prems" show ?thesis by simp
    next
      case (Suc j)
      show ?thesis
      proof (cases "j = 0")
        case True
        have "0 < length (str_nat (n div 10))" using str_nat_nonempty by simp
        with True Suc False len show ?thesis by simp
      next
        case j: False
        then have "length (str_nat (n div 10)) \<le> j \<longleftrightarrow> n div 10 < 10 ^ j"
          using "1.IH" [of j] False by simp
        also have "\<dots> \<longleftrightarrow> n < 10 ^ j * 10"
          by (simp add: div_less_iff_less_mult)
        finally show ?thesis using len Suc by (simp add: mult.commute)
      qed
    qed
  qed
qed

lemma nat_abs_less_power:
  "nat \<bar>sid\<bar> < 10 ^ k \<longleftrightarrow> \<bar>sid\<bar> < (10::int) ^ k"
proof -
  have "int (nat \<bar>sid\<bar>) < int (10 ^ k) \<longleftrightarrow> nat \<bar>sid\<bar> < 10 ^ k"
    by (rule of_nat_less_iff)
  moreover have "int (nat \<bar>sid\<bar>) = \<bar>sid\<bar>" by simp
  moreover have "int (10 ^ k) = 10 ^ k" by simp
  ultimately show ?thesis by presburger
qed

lemma str_int_ok_iff: "(\<exists>t. str_int sid = Inr t) \<longleftrightarrow> \<bar>sid\<bar> < 10 ^ int_max_str_digits"
proof -
  have "0 < int_max_str_digits" by (simp add: int_max_str_digits_def)
  then have "length (str_nat (nat \<bar>sid\<bar>)) \<le> int_max_str_digits \<longleftrightarrow>
      nat \<bar>sid\<bar> < 10 ^ int_max_str_digits"
    by (rule str_nat_length)
  then have len: "length (str_nat (nat \<bar>sid\<bar>)) \<le> int_max_str_digits \<longleftrightarrow>
      \<bar>sid\<bar> < 10 ^ int_max_str_digits"
    by (simp only: nat_abs_less_power)
  show ?thesis
  proof (cases "length (str_nat (nat \<bar>sid\<bar>)) \<le> int_max_str_digits")
    case True
    then have "\<exists>t. str_int sid = Inr t" by (simp add: str_int_def)
    with True len show ?thesis by blast
  next
    case False
    then have "str_int sid = Inl DigitLimit" by (simp add: str_int_def)
    then have "\<not> (\<exists>t. str_int sid = Inr t)" by simp
    with False len show ?thesis by blast
  qed
qed


lemma str_int_limit:
  "\<not> \<bar>sid\<bar> < 10 ^ int_max_str_digits \<Longrightarrow> str_int sid = Inl DigitLimit"
proof -
  assume "\<not> \<bar>sid\<bar> < 10 ^ int_max_str_digits"
  then have "\<not> (\<exists>t. str_int sid = Inr t)" using str_int_ok_iff [of sid] by blast
  then show ?thesis by (auto simp: str_int_def split: if_splits)
qed

lemma str_int_numeral: "str_int sid = Inr t \<Longrightarrow> sid_numeral sid t"
proof -
  assume a: "str_int sid = Inr t"
  let ?ds = "str_nat (nat \<bar>sid\<bar>)"
  from a have t: "t = (if sid < 0 then CHR ''-'' # ?ds else ?ds)"
    by (simp add: str_int_def split: if_splits)
  have "?ds \<noteq> []" by (rule str_nat_nonempty)
  moreover have "list_all isdecimal ?ds" by (rule str_nat_isdecimal)
  moreover have "take 1 ?ds = ''0'' \<longrightarrow> ?ds = ''0''"
    using str_nat_no_leading_zero by blast
  moreover have "decimal ?ds = \<bar>sid\<bar>" by (simp add: str_nat_decimal)
  ultimately show ?thesis unfolding sid_numeral_def using t by blast
qed

lemma str_int_small: "0 \<le> n \<Longrightarrow> n \<le> 65535 \<Longrightarrow> \<exists>t. str_int n = Inr t"
proof -
  assume "0 \<le> n" "n \<le> 65535"
  then have "\<bar>n\<bar> < 10 ^ 5" by simp
  moreover have "(10::int) ^ 5 \<le> 10 ^ int_max_str_digits"
    by (rule power_increasing) (simp_all add: int_max_str_digits_def)
  ultimately have "\<bar>n\<bar> < 10 ^ int_max_str_digits" by (rule less_le_trans)
  then show ?thesis by (simp only: str_int_ok_iff)
qed

subsection \<open>Configuration resolution\<close>

text \<open>
  C8: the precedence of \<open>resolve\<close> is explicit argument, then configuration value, then
  fallback. A present direct value is returned; with the direct value absent, the value the
  configuration mapping holds for the key is returned; with both absent, the fallback is.
\<close>

theorem resolve_precedence:
  "(arg_val \<noteq> PyNone \<longrightarrow> resolve arg_val config key fallback = arg_val) \<and>
   (arg_val = PyNone \<longrightarrow> config key = Some v \<longrightarrow> resolve arg_val config key fallback = v) \<and>
   (arg_val = PyNone \<longrightarrow> config key = None \<longrightarrow>
      resolve arg_val config key fallback = fallback)"
  by (simp add: resolve_def get_config_value_def)

theorem resolve_precedence_witness:
  "resolve (PyStr ''x'') [''k'' \<mapsto> PyStr ''c''] ''k'' (PyStr ''d'') = PyStr ''x'' \<and>
   resolve PyNone [''k'' \<mapsto> PyStr ''c''] ''k'' (PyStr ''d'') = PyStr ''c'' \<and>
   resolve PyNone [''k'' \<mapsto> PyStr ''c''] ''j'' (PyStr ''d'') = PyStr ''d''"
  using resolve_precedence [of "PyStr ''x''" "[''k'' \<mapsto> PyStr ''c'']" "''k''" "PyStr ''d''" "PyStr ''c''"]
    resolve_precedence [of PyNone "[''k'' \<mapsto> PyStr ''c'']" "''k''" "PyStr ''d''" "PyStr ''c''"]
    resolve_precedence [of PyNone "[''k'' \<mapsto> PyStr ''c'']" "''j''" "PyStr ''d''" "PyStr ''c''"]
  by simp

text \<open>
  C9: only \<open>None\<close> counts as an absent direct value. Any other direct argument, truthy or
  falsy, is the result, whatever the configuration mapping, the key and the fallback are.
\<close>

theorem resolve_only_none_absent:
  "arg_val \<noteq> PyNone \<Longrightarrow>
     resolve arg_val config key fallback = arg_val \<and>
     resolve arg_val config' key' fallback' = resolve arg_val config key fallback"
  by (simp add: resolve_def)

theorem resolve_only_none_absent_witness:
  "\<not> truthy (PyInt 0) \<and> \<not> truthy (PyBool False) \<and> \<not> truthy (PyStr []) \<and>
   resolve (PyInt 0) [''k'' \<mapsto> PyInt 5] ''k'' (PyInt 7) = PyInt 0 \<and>
   resolve (PyBool False) [''k'' \<mapsto> PyInt 5] ''k'' (PyInt 7) = PyBool False \<and>
   resolve (PyStr []) [''k'' \<mapsto> PyInt 5] ''k'' (PyInt 7) = PyStr []"
  using resolve_only_none_absent [of "PyInt 0" "[''k'' \<mapsto> PyInt 5]" "''k''" "PyInt 7"]
    resolve_only_none_absent [of "PyBool False" "[''k'' \<mapsto> PyInt 5]" "''k''" "PyInt 7"]
    resolve_only_none_absent [of "PyStr []" "[''k'' \<mapsto> PyInt 5]" "''k''" "PyInt 7"]
  by simp

subsection \<open>Port\<close>

lemma py_int_65535: "py_int ''65535'' = Inr 65535"
  by (simp add: py_int_def int_body_def int_whitespace_def isdecimal_def digit_value_def
      int_max_str_digits_def)

lemma py_int_65536: "py_int ''65536'' = Inr 65536"
  by (simp add: py_int_def int_body_def int_whitespace_def isdecimal_def digit_value_def
      int_max_str_digits_def)

lemma py_int_abc: "py_int ''abc'' = Inl (InvalidLiteral ''abc'')"
  by (simp add: py_int_def int_body_def int_whitespace_def isdecimal_def)

lemma lower_ANY: "lower ''ANY'' = ''any''"
  by (simp add: lower_def lower_char_def uppercase_def lowercase_def)

lemma lower_65535: "lower ''65535'' \<noteq> ''any''"
  by (simp add: lower_def)

text \<open>
  C5, as stated, asks that an input equal to \<open>any\<close> in some letter case is returned
  unchanged. The validator returns the literal \<open>any\<close>: the input \<open>ANY\<close> does not come
  back as \<open>ANY\<close>.
\<close>

theorem validate_port_any_not_unchanged:
  "validate_port ''ANY'' \<noteq> Inr ''ANY''"
  by (simp add: validate_port_def lower_ANY)

text \<open>
  C5, amended: the port validator succeeds exactly when the lower-cased input is \<open>any\<close> or
  the input parses as an integer between 0 and 65535; in every other case it fails with a
  \<open>ValueError\<close>; and for an input that is \<open>any\<close> in some letter case the result is the
  lower-case string \<open>any\<close>.
\<close>

theorem validate_port_result:
  "((\<exists>r. validate_port v = Inr r) \<longleftrightarrow>
      (lower v = ''any'' \<or> (\<exists>n. py_int v = Inr n \<and> 0 \<le> n \<and> n \<le> 65535))) \<and>
   (\<not> (lower v = ''any'' \<or> (\<exists>n. py_int v = Inr n \<and> 0 \<le> n \<and> n \<le> 65535)) \<longrightarrow>
      (\<exists>m. validate_port v = Inl (ValueError m))) \<and>
   (lower v = ''any'' \<longrightarrow> validate_port v = Inr ''any'')"
proof (cases "lower v = ''any''")
  case True
  then show ?thesis by (simp add: validate_port_def)
next
  case False
  show ?thesis
  proof (cases "py_int v")
    case (Inl e)
    with False show ?thesis by (simp add: validate_port_def port_try_def)
  next
    case (Inr n)
    show ?thesis
    proof (cases "0 \<le> n \<and> n \<le> 65535")
      case True
      then obtain t where "str_int n = Inr t" using str_int_small by blast
      with False Inr True show ?thesis by (simp add: validate_port_def port_try_def)
    next
      case out: False
      then have "port_try v = Inl (ValueError ''Port must be between 0 and 65535.'')"
        using Inr by (auto simp: port_try_def)
      with False out Inr show ?thesis by (simp add: validate_port_def)
    qed
  qed
qed

theorem validate_port_result_witness:
  "validate_port ''ANY'' = Inr ''any'' \<and>
   (\<exists>r. validate_port ''65535'' = Inr r) \<and>
   (\<exists>m. validate_port ''65536'' = Inl (ValueError m))"
  using validate_port_result [of "''ANY''"] validate_port_result [of "''65535''"]
    validate_port_result [of "''65536''"] lower_ANY py_int_65535 py_int_65536 lower_65535
  by (simp add: lower_def)

text \<open>
  C6: a number out of range and an input that is no number fail with the same message. The
  range message is raised inside the \<^verbatim>\<open>try\<close> block, as \<open>port_try\<close> shows, and is
  replaced by the \<^verbatim>\<open>except\<close> clause.
\<close>

theorem validate_port_same_message:
  "validate_port ''65536'' = Inl (ValueError ''Invalid port: must be an integer or 'any'.'') \<and>
   validate_port ''abc'' = Inl (ValueError ''Invalid port: must be an integer or 'any'.'') \<and>
   port_try ''65536'' = Inl (ValueError ''Port must be between 0 and 65535.'')"
  by (simp add: validate_port_def port_try_def py_int_65536 py_int_abc lower_def lower_char_def
      uppercase_def lowercase_def)

subsection \<open>Offset and depth\<close>

text \<open>
  On a string of decimal digits within the limit the conditional expression gives its
  number, and on an absent input or a string that fails \<^verbatim>\<open>isdigit\<close> it gives
  \<open>None\<close>.
\<close>

lemma int_if_digits_decimal:
  assumes "s \<noteq> []" and "list_all isdecimal s" and "length s \<le> int_max_str_digits"
  shows "int_if_digits (Some s) = Inr (Some (decimal s))"
proof -
  from assms have "isdigit s"
    by (auto simp: isdigit_def isdigit_char_def list_all_iff)
  with assms show ?thesis
    by (simp add: int_if_digits_def py_int_decimal)
qed

lemma int_if_digits_absent:
  "int_if_digits None = Inr None" "\<not> isdigit s \<Longrightarrow> int_if_digits (Some s) = Inr None"
  by (simp_all add: int_if_digits_def)

lemma validate_offset_depth_examples:
  "validate_offset_depth (Some ''10'') (Some ''5'') =
     Inl (ValueError ''Offset cannot be greater than depth.'')"
  "validate_offset_depth (Some ''5'') (Some ''10'') = Inr (Some 5, Some 10)"
  "validate_offset_depth None None = Inr (None, None)"
  "validate_offset_depth (Some ''abc'') (Some ''5'') = Inr (None, Some 5)"
  by (simp_all add: validate_offset_depth_def int_if_digits_def isdigit_def isdigit_char_def
      isdecimal_def py_int_def int_body_def int_whitespace_def digit_value_def
      int_max_str_digits_def)

text \<open>
  C7: the superscript two passes \<^verbatim>\<open>isdigit\<close> and is no literal for \<^verbatim>\<open>int\<close>. With
  it as the offset and no depth, the validator fails with the error of \<^verbatim>\<open>int\<close>.
\<close>

theorem validate_offset_depth_superscript_raises:
  "isdigit [CHR 0xB2] \<and>
   validate_offset_depth (Some [CHR 0xB2]) None = Inl (InvalidLiteral [CHR 0xB2])"
  by (simp add: validate_offset_depth_def int_if_digits_def isdigit_def isdigit_char_def
      isdecimal_def py_int_def int_body_def int_whitespace_def)

subsection \<open>TCP flags\<close>

lemma upper_char_allowed_all: "\<forall>c \<in> set ''FSRPAUCE0*+!,''. upper_char c = [c]"
  by (simp add: upper_char_def lowercase_def uppercase_def)

lemma upper_allowed: "list_all (\<lambda>c. c \<in> allowed_chars) flags \<Longrightarrow> upper flags = flags"
proof (induction flags)
  case Nil
  show ?case by (simp add: upper_def)
next
  case (Cons c cs)
  from Cons.prems have "c \<in> set ''FSRPAUCE0*+!,''"
    by (simp add: allowed_chars_def)
  with upper_char_allowed_all have "upper_char c = [c]" by blast
  moreover from Cons have "upper cs = cs" by simp
  ultimately show ?case by (simp add: upper_def)
qed

text \<open>
  The membership test is made on the input as it is, before \<open>upper\<close>: an accepted string
  holds no lower-case letter, and \<open>upper\<close> returns it as it is.
\<close>

lemma validate_flags_case_sensitive:
  "validate_flags flags =
     (if list_all (\<lambda>c. c \<in> allowed_chars) flags then Inr flags
      else Inl (ValueError (''Invalid character in TCP flags: '' @ flags)))"
  by (simp add: validate_flags_def upper_allowed)

text \<open>
  C3: the lower-case flag \<open>s\<close> is rejected, while \<open>S\<close> is accepted.
\<close>

theorem validate_flags_lowercase_rejected:
  "validate_flags ''s'' = Inl (ValueError ''Invalid character in TCP flags: s'') \<and>
   validate_flags ''S'' = Inr ''S''"
  by (simp add: validate_flags_case_sensitive allowed_chars_def)

subsection \<open>Message text\<close>

text \<open>
  C4: in the escaped input \<open>a\;b\<close> the backslash is itself a reserved character with no
  backslash before it, so it is doubled, and the semicolon after it is left alone; the
  plain input \<open>a;b\<close> becomes \<open>a\;b\<close>.
\<close>

theorem validate_msg_doubles_backslash:
  "validate_msg [CHR ''a'', CHR 0x5C, CHR '';'', CHR ''b''] =
     Inr [CHR ''a'', CHR 0x5C, CHR 0x5C, CHR '';'', CHR ''b''] \<and>
   validate_msg ''a;b'' = Inr [CHR ''a'', CHR 0x5C, CHR '';'', CHR ''b'']"
  by (simp add: validate_msg_def pattern_class_def escape_char_def reserved_def)

subsection \<open>Metadata\<close>

lemma isspace_blank: "isspace (CHR '' '')"
  by (simp add: isspace_def whitespace_def)

lemma strip_last_not_space: "strip s \<noteq> [] \<Longrightarrow> \<not> isspace (last (strip s))"
proof -
  assume ne: "strip s \<noteq> []"
  let ?t = "dropWhile isspace (rev (lstrip s))"
  from ne have "?t \<noteq> []" by (simp add: strip_def rstrip_def)
  then have "\<not> isspace (hd ?t)" by (rule hd_dropWhile)
  moreover from \<open>?t \<noteq> []\<close> have "last (rev ?t) = hd ?t" by (simp add: last_rev)
  ultimately show ?thesis by (simp add: strip_def rstrip_def)
qed

lemma split1_value_nonempty:
  assumes "sep \<in> set p" and "last p \<noteq> sep"
  shows "\<exists>key val. split1 sep p = [key, val] \<and> val \<noteq> []"
proof -
  let ?d = "dropWhile (\<lambda>c. c \<noteq> sep) p"
  from assms(1) have "?d \<noteq> []" by auto
  then obtain x rest where d: "?d = x # rest" by (cases ?d) auto
  then have "x = sep" using hd_dropWhile [of "\<lambda>c. c \<noteq> sep" p] by auto
  have "rest \<noteq> []"
  proof
    assume "rest = []"
    with d \<open>x = sep\<close> have "p = takeWhile (\<lambda>c. c \<noteq> sep) p @ [sep]"
      using takeWhile_dropWhile_id [of "\<lambda>c. c \<noteq> sep" p] by simp
    then have "last p = sep" by (metis last_snoc)
    with assms(2) show False by simp
  qed
  with d assms(1) show ?thesis by (simp add: split1_def)
qed

lemma split1_stripped:
  assumes "strip item \<noteq> []" and "CHR '' '' \<in> set (strip item)"
  shows "\<exists>key val. split1 (CHR '' '') (strip item) = [key, val] \<and> val \<noteq> []"
proof -
  from assms(1) have "last (strip item) \<noteq> CHR '' ''"
    using strip_last_not_space [of item] isspace_blank by auto
  with assms(2) show ?thesis by (rule split1_value_nonempty)
qed

lemma metadata_parts_stripped:
  "part \<in> set (metadata_parts data) \<Longrightarrow> \<exists>item. part = strip item \<and> strip item \<noteq> []"
  by (auto simp: metadata_parts_def)

lemma check_parts_cases:
  assumes "\<And>part. part \<in> set parts \<Longrightarrow> \<exists>item. part = strip item \<and> strip item \<noteq> []"
  shows "check_parts parts = Inr () \<or>
     (\<exists>part. part \<in> set parts \<and> CHR '' '' \<notin> set part \<and>
        check_parts parts = Inl (ValueError (segment_message part))) \<or>
     (\<exists>key. \<not> isidentifier key \<and> check_parts parts = Inl (ValueError (key_message key)))"
  using assms
proof (induction parts)
  case Nil
  show ?case by simp
next
  case (Cons part parts)
  show ?case
  proof (cases "CHR '' '' \<in> set part")
    case False
    then show ?thesis by auto
  next
    case True
    from Cons.prems [of part] obtain item where "part = strip item" "strip item \<noteq> []" by auto
    with True obtain key val where kv: "split1 (CHR '' '') part = [key, val]" "val \<noteq> []"
      using split1_stripped [of item] by auto
    show ?thesis
    proof (cases "isidentifier key")
      case False
      with True kv show ?thesis by auto
    next
      case ident: True
      have "\<And>q. q \<in> set parts \<Longrightarrow> \<exists>item. q = strip item \<and> strip item \<noteq> []"
        using Cons.prems by simp
      from Cons.IH [OF this] have ih: "check_parts parts = Inr () \<or>
        (\<exists>part. part \<in> set parts \<and> CHR '' '' \<notin> set part \<and>
           check_parts parts = Inl (ValueError (segment_message part))) \<or>
        (\<exists>key. \<not> isidentifier key \<and> check_parts parts = Inl (ValueError (key_message key)))" .
      have step: "check_parts (part # parts) = check_parts parts"
        using True kv ident by simp
      from ih show ?thesis unfolding step by auto
    qed
  qed
qed

lemma messages_differ:
  "segment_message part \<noteq> missing_message key" "key_message k \<noteq> missing_message key"
  by (simp_all add: segment_message_def key_message_def missing_message_def)

text \<open>
  C10: a segment that is not empty after stripping and holds a blank splits at its first
  blank into a key and a remainder that is not empty. So the validator returns its input,
  or fails with the message for a segment without a blank, or with the message for an
  invalid key; it never fails with the message for a missing value, nor in the assignment
  of the two pieces.
\<close>

theorem metadata_missing_value_unreachable:
  "(strip item \<noteq> [] \<longrightarrow> CHR '' '' \<in> set (strip item) \<longrightarrow>
      (\<exists>k val. split1 (CHR '' '') (strip item) = [k, val] \<and> val \<noteq> [])) \<and>
   (validate_metadata data = Inr data \<or>
    (\<exists>part. part \<in> set (metadata_parts data) \<and> CHR '' '' \<notin> set part \<and>
       validate_metadata data = Inl (ValueError (segment_message part))) \<or>
    (\<exists>k. \<not> isidentifier k \<and> validate_metadata data = Inl (ValueError (key_message k)))) \<and>
   validate_metadata data \<noteq> Inl (ValueError (missing_message key)) \<and>
   validate_metadata data \<noteq> Inl UnpackError"
proof -
  have cases: "check_parts (metadata_parts data) = Inr () \<or>
     (\<exists>part. part \<in> set (metadata_parts data) \<and> CHR '' '' \<notin> set part \<and>
        check_parts (metadata_parts data) = Inl (ValueError (segment_message part))) \<or>
     (\<exists>k. \<not> isidentifier k \<and>
        check_parts (metadata_parts data) = Inl (ValueError (key_message k)))"
    by (rule check_parts_cases) (rule metadata_parts_stripped)
  have a: "strip item \<noteq> [] \<longrightarrow> CHR '' '' \<in> set (strip item) \<longrightarrow>
      (\<exists>k val. split1 (CHR '' '') (strip item) = [k, val] \<and> val \<noteq> [])"
    using split1_stripped by blast
  from cases have b: "validate_metadata data = Inr data \<or>
    (\<exists>part. part \<in> set (metadata_parts data) \<and> CHR '' '' \<notin> set part \<and>
       validate_metadata data = Inl (ValueError (segment_message part))) \<or>
    (\<exists>k. \<not> isidentifier k \<and> validate_metadata data = Inl (ValueError (key_message k)))"
    by (auto simp: validate_metadata_def)
  from cases have c: "validate_metadata data \<noteq> Inl (ValueError (missing_message key))"
    using messages_differ by (auto simp: validate_metadata_def)
  from cases have d: "validate_metadata data \<noteq> Inl UnpackError"
    by (auto simp: validate_metadata_def)
  from a b c d show ?thesis by blast
qed

lemma strip_example: "strip '' os linux '' = ''os linux''"
  by (simp add: strip_def lstrip_def rstrip_def isspace_def whitespace_def)

lemma validate_metadata_example:
  "validate_metadata ''os linux, author admin'' = Inr ''os linux, author admin''"
  by (simp add: validate_metadata_def metadata_parts_def split_def strip_def lstrip_def
      rstrip_def isspace_def whitespace_def split1_def isidentifier_def id_start_def
      id_continue_def isdecimal_def)

theorem metadata_missing_value_unreachable_witness:
  "strip '' os linux '' \<noteq> [] \<and> CHR '' '' \<in> set (strip '' os linux '') \<and>
   split1 (CHR '' '') (strip '' os linux '') = [''os'', ''linux''] \<and>
   validate_metadata ''os linux, author admin'' = Inr ''os linux, author admin'' \<and>
   validate_metadata ''os linux, author admin'' \<noteq> Inl (ValueError (missing_message ''os''))"
  using metadata_missing_value_unreachable [of "'' os linux ''" "''os linux, author admin''" "''os''"]
    strip_example validate_metadata_example
  by (simp add: split1_def)

subsection \<open>Revision lookup\<close>

lemma strip_prefix_iff: "strip_prefix p s = Some r \<longleftrightarrow> s = p @ r"
proof (induction p arbitrary: s)
  case Nil
  show ?case by auto
next
  case (Cons a p)
  then show ?case by (cases s) auto
qed

lemma not_isspace_r: "\<not> isspace (CHR ''r'')"
  by (simp add: isspace_def whitespace_def)

lemma take1_dropWhile: "list_all (\<lambda>c. \<not> P c) (take 1 (dropWhile P xs))"
proof (cases "dropWhile P xs")
  case Nil
  then show ?thesis by (simp del: dropWhile_eq_Nil_conv)
next
  case (Cons x ys)
  then have "\<not> P x" using hd_dropWhile [of P xs] by simp
  with Cons show ?thesis by simp
qed

lemma takeWhile_exact:
  assumes "list_all P g" and "list_all (\<lambda>c. \<not> P c) (take 1 post)"
  shows "takeWhile P (g @ post) = g"
proof -
  from assms(2) have "takeWhile P post = []" by (cases post) simp_all
  with assms(1) show ?thesis by (simp add: list_all_iff)
qed

text \<open>
  The matcher and the shape of the marker agree: \<open>match_here\<close> gives the group \<open>g\<close>
  exactly when the string starts with the marker whose digits are \<open>g\<close>.
\<close>

lemma match_here_marker: "match_here t s = Some g \<longleftrightarrow> marker t s g"
proof
  assume "match_here t s = Some g"
  then obtain r d where r: "strip_prefix (''sid:'' @ t @ '';'') s = Some r"
    and d: "strip_prefix ''rev:'' (dropWhile isspace r) = Some d"
    and g: "takeWhile isdecimal d \<noteq> []" "g = takeWhile isdecimal d"
    by (auto simp: match_here_def split: option.splits if_splits)
  from r have "s = (''sid:'' @ t @ '';'') @ r"
    by (simp only: strip_prefix_iff)
  moreover from d have "dropWhile isspace r = ''rev:'' @ d"
    by (simp only: strip_prefix_iff)
  then have "r = takeWhile isspace r @ ''rev:'' @ g @ dropWhile isdecimal d"
    using takeWhile_dropWhile_id [of isspace r] g(2) by simp
  ultimately have "s = ''sid:'' @ t @ '';'' @ takeWhile isspace r @ ''rev:'' @ g @
      dropWhile isdecimal d"
    by simp
  moreover have "list_all isspace (takeWhile isspace r)"
    by (auto simp: list_all_iff dest: set_takeWhileD)
  moreover have "list_all isdecimal g"
    using g(2) by (auto simp: list_all_iff dest: set_takeWhileD)
  moreover have "list_all (\<lambda>c. \<not> isdecimal c) (take 1 (dropWhile isdecimal d))"
    by (rule take1_dropWhile)
  ultimately show "marker t s g"
    unfolding marker_def using g by blast
next
  assume "marker t s g"
  then obtain ws post where s: "s = (''sid:'' @ t @ '';'') @ (ws @ ''rev:'' @ g @ post)"
    and ws: "list_all isspace ws" and g: "g \<noteq> []" "list_all isdecimal g"
    and post: "list_all (\<lambda>c. \<not> isdecimal c) (take 1 post)"
    unfolding marker_def by auto
  from s have r: "strip_prefix (''sid:'' @ t @ '';'') s = Some (ws @ ''rev:'' @ g @ post)"
    by (simp only: strip_prefix_iff)
  from ws have "dropWhile isspace (ws @ ''rev:'' @ g @ post) = dropWhile isspace (''rev:'' @ g @ post)"
    by (simp add: list_all_iff)
  then have "dropWhile isspace (ws @ ''rev:'' @ g @ post) = ''rev:'' @ (g @ post)"
    using not_isspace_r by simp
  then have d: "strip_prefix ''rev:'' (dropWhile isspace (ws @ ''rev:'' @ g @ post)) = Some (g @ post)"
    by (simp only: strip_prefix_iff)
  have "takeWhile isdecimal (g @ post) = g"
    using g(2) post by (rule takeWhile_exact)
  with r d g(1) show "match_here t s = Some g"
    by (simp add: match_here_def)
qed

lemma match_here_Nil: "match_here t [] = None"
  by (simp add: match_here_def)

lemma occurrence_match:
  "occurrence t line n g \<longleftrightarrow> n \<le> length line \<and> match_here t (drop n line) = Some g"
  by (simp add: occurrence_def match_here_marker)

text \<open>
  \<open>search\<close> gives the group of the match at the least position that has one, that is,
  the digits of the first occurrence of the marker in the line.
\<close>

lemma search_position:
  "search t line = Some g \<longleftrightarrow>
     (\<exists>n. n \<le> length line \<and> match_here t (drop n line) = Some g \<and>
        (\<forall>m<n. match_here t (drop m line) = None))"
proof (induction line)
  case Nil
  show ?case by (simp add: match_here_Nil)
next
  case (Cons c cs)
  show ?case
  proof (cases "match_here t (c # cs)")
    case (Some g0)
    have "(\<exists>n. n \<le> length (c # cs) \<and> match_here t (drop n (c # cs)) = Some g \<and>
        (\<forall>m<n. match_here t (drop m (c # cs)) = None)) \<longleftrightarrow> g0 = g"
    proof
      assume "\<exists>n. n \<le> length (c # cs) \<and> match_here t (drop n (c # cs)) = Some g \<and>
        (\<forall>m<n. match_here t (drop m (c # cs)) = None)"
      then obtain n where n: "match_here t (drop n (c # cs)) = Some g"
        "\<forall>m<n. match_here t (drop m (c # cs)) = None" by blast
      have "n = 0"
      proof (rule ccontr)
        assume "n \<noteq> 0"
        then have "0 < n" by simp
        with n(2) have "match_here t (drop 0 (c # cs)) = None" by blast
        with Some show False by simp
      qed
      with n(1) Some show "g0 = g" by simp
    next
      assume "g0 = g"
      with Some have "0 \<le> length (c # cs) \<and> match_here t (drop 0 (c # cs)) = Some g \<and>
        (\<forall>m<0. match_here t (drop m (c # cs)) = None)" by simp
      then show "\<exists>n. n \<le> length (c # cs) \<and> match_here t (drop n (c # cs)) = Some g \<and>
        (\<forall>m<n. match_here t (drop m (c # cs)) = None)" by blast
    qed
    with Some show ?thesis by simp
  next
    case None
    have "(\<exists>n. n \<le> length (c # cs) \<and> match_here t (drop n (c # cs)) = Some g \<and>
        (\<forall>m<n. match_here t (drop m (c # cs)) = None)) \<longleftrightarrow>
      (\<exists>k. k \<le> length cs \<and> match_here t (drop k cs) = Some g \<and>
        (\<forall>m<k. match_here t (drop m cs) = None))"
    proof
      assume "\<exists>n. n \<le> length (c # cs) \<and> match_here t (drop n (c # cs)) = Some g \<and>
        (\<forall>m<n. match_here t (drop m (c # cs)) = None)"
      then obtain n where n: "n \<le> length (c # cs)" "match_here t (drop n (c # cs)) = Some g"
        "\<forall>m<n. match_here t (drop m (c # cs)) = None" by blast
      from n(2) None have "n \<noteq> 0" by (cases n) auto
      then obtain k where k: "n = Suc k" by (cases n) auto
      have "\<forall>m<k. match_here t (drop m cs) = None"
      proof (intro allI impI)
        fix m assume "m < k"
        then have "Suc m < n" using k by simp
        with n(3) have "match_here t (drop (Suc m) (c # cs)) = None" by blast
        then show "match_here t (drop m cs) = None" by simp
      qed
      with n(1,2) k have "k \<le> length cs \<and> match_here t (drop k cs) = Some g \<and>
        (\<forall>m<k. match_here t (drop m cs) = None)" by simp
      then show "\<exists>k. k \<le> length cs \<and> match_here t (drop k cs) = Some g \<and>
        (\<forall>m<k. match_here t (drop m cs) = None)" by blast
    next
      assume "\<exists>k. k \<le> length cs \<and> match_here t (drop k cs) = Some g \<and>
        (\<forall>m<k. match_here t (drop m cs) = None)"
      then obtain k where k: "k \<le> length cs" "match_here t (drop k cs) = Some g"
        "\<forall>m<k. match_here t (drop m cs) = None" by blast
      have "\<forall>m<Suc k. match_here t (drop m (c # cs)) = None"
      proof (intro allI impI)
        fix m assume m: "m < Suc k"
        show "match_here t (drop m (c # cs)) = None"
        proof (cases m)
          case 0
          with None show ?thesis by simp
        next
          case (Suc j)
          with m have "j < k" by simp
          with k(3) Suc show ?thesis by simp
        qed
      qed
      with k(1,2) have "Suc k \<le> length (c # cs) \<and>
        match_here t (drop (Suc k) (c # cs)) = Some g \<and>
        (\<forall>m<Suc k. match_here t (drop m (c # cs)) = None)" by simp
      then show "\<exists>n. n \<le> length (c # cs) \<and> match_here t (drop n (c # cs)) = Some g \<and>
        (\<forall>m<n. match_here t (drop m (c # cs)) = None)" by blast
    qed
    with None Cons.IH show ?thesis by simp
  qed
qed

lemma search_first_occurrence: "search t line = Some g \<longleftrightarrow> first_occurrence t line g"
proof -
  have "first_occurrence t line g \<longleftrightarrow>
     (\<exists>n. n \<le> length line \<and> match_here t (drop n line) = Some g \<and>
        (\<forall>m<n. match_here t (drop m line) = None))"
    unfolding first_occurrence_def occurrence_match
  proof (intro iff_exI)
    fix n
    show "((n \<le> length line \<and> match_here t (drop n line) = Some g) \<and>
        (\<forall>m g'. m < n \<longrightarrow> \<not> (m \<le> length line \<and> match_here t (drop m line) = Some g'))) \<longleftrightarrow>
      (n \<le> length line \<and> match_here t (drop n line) = Some g \<and>
        (\<forall>m<n. match_here t (drop m line) = None))"
    proof (cases "n \<le> length line")
      case True
      then have "\<And>m. m < n \<Longrightarrow> m \<le> length line" by simp
      then show ?thesis by (metis not_Some_eq option.distinct(1))
    next
      case False
      then show ?thesis by simp
    qed
  qed
  then show ?thesis by (simp only: search_position)
qed

lemma search_decimal: "search t line = Some g \<Longrightarrow> g \<noteq> [] \<and> list_all isdecimal g"
proof -
  assume "search t line = Some g"
  then obtain n where "match_here t (drop n line) = Some g"
    unfolding search_position by blast
  then have "marker t (drop n line) g" by (simp only: match_here_marker)
  then show ?thesis unfolding marker_def by blast
qed

lemma search_py_int:
  "search t line = Some g \<Longrightarrow> length g \<le> int_max_str_digits \<Longrightarrow> py_int g = Inr (decimal g)"
  using search_decimal [of t line g] py_int_decimal [of g] by simp

lemma search_py_int_limit:
  "search t line = Some g \<Longrightarrow> int_max_str_digits < length g \<Longrightarrow> py_int g = Inl DigitLimit"
  using search_decimal [of t line g] py_int_decimal [of g] by simp

text \<open>The two lists hold what the sets of revision numbers hold.\<close>

lemma set_occurrences: "set (occurrences t line) = {g. \<exists>n. occurrence t line n g}"
proof (induction line)
  case Nil
  show ?case by (simp add: occurrence_match match_here_Nil)
next
  case (Cons c cs)
  have "{g. \<exists>n. occurrence t (c # cs) n g} =
      {g. match_here t (c # cs) = Some g} \<union> {g. \<exists>n. occurrence t cs n g}"
  proof (intro set_eqI iffI)
    fix g assume "g \<in> {g. \<exists>n. occurrence t (c # cs) n g}"
    then obtain n where n: "n \<le> length (c # cs)" "match_here t (drop n (c # cs)) = Some g"
      by (auto simp: occurrence_match)
    show "g \<in> {g. match_here t (c # cs) = Some g} \<union> {g. \<exists>n. occurrence t cs n g}"
    proof (cases n)
      case 0
      with n show ?thesis by simp
    next
      case (Suc k)
      with n have "occurrence t cs k g" by (simp add: occurrence_match)
      then show ?thesis by blast
    qed
  next
    fix g assume "g \<in> {g. match_here t (c # cs) = Some g} \<union> {g. \<exists>n. occurrence t cs n g}"
    then consider "match_here t (c # cs) = Some g" | n where "occurrence t cs n g" by blast
    then show "g \<in> {g. \<exists>n. occurrence t (c # cs) n g}"
    proof cases
      case 1
      then have "occurrence t (c # cs) 0 g" by (simp add: occurrence_match)
      then show ?thesis by blast
    next
      case 2
      then have "occurrence t (c # cs) (Suc n) g" by (simp add: occurrence_match)
      then show ?thesis by blast
    qed
  qed
  moreover have "set (occurrences t (c # cs)) =
      {g. match_here t (c # cs) = Some g} \<union> set (occurrences t cs)"
    by (cases "match_here t (c # cs)") auto
  ultimately show ?case using Cons.IH by simp
qed

lemma all_revisions_list:
  "all_revisions t f = set (concat (map (\<lambda>line. map decimal (occurrences t line)) f))"
proof -
  have "set (concat (map (\<lambda>line. map decimal (occurrences t line)) f)) =
      (\<Union>line \<in> set f. decimal ` set (occurrences t line))"
    by simp
  also have "\<dots> = (\<Union>line \<in> set f. decimal ` {g. \<exists>n. occurrence t line n g})"
    by (simp only: set_occurrences)
  also have "\<dots> = all_revisions t f"
    unfolding all_revisions_def by blast
  finally show ?thesis by simp
qed

lemma first_revisions_list: "first_revisions t f = set (matching_revisions t f)"
proof -
  have "set (matching_revisions t f) =
      {decimal g |line g. line \<in> set f \<and> search t line = Some g}"
    unfolding matching_revisions_def map_filter_def by force
  then show ?thesis
    unfolding first_revisions_def by (simp only: search_first_occurrence)
qed

lemma occurrence_first:
  "(\<exists>n g. occurrence t line n g) \<longleftrightarrow> (\<exists>g. first_occurrence t line g)"
proof
  assume "\<exists>n g. occurrence t line n g"
  then have "\<exists>n. \<exists>g. occurrence t line n g" by blast
  then obtain n where n: "\<exists>g. occurrence t line n g"
    and least: "\<forall>m<n. \<not> (\<exists>g. occurrence t line m g)"
    using exists_least_iff [of "\<lambda>n. \<exists>g. occurrence t line n g"] by blast
  from n obtain g where "occurrence t line n g" by blast
  with least have "occurrence t line n g \<and> (\<forall>m g'. m < n \<longrightarrow> \<not> occurrence t line m g')"
    by blast
  then show "\<exists>g. first_occurrence t line g"
    unfolding first_occurrence_def by blast
next
  assume "\<exists>g. first_occurrence t line g"
  then show "\<exists>n g. occurrence t line n g"
    unfolding first_occurrence_def by blast
qed

lemma first_revisions_empty:
  "first_revisions t f = {} \<longleftrightarrow> (\<forall>line \<in> set f. \<forall>n g. \<not> occurrence t line n g)"
proof -
  have "first_revisions t f = {} \<longleftrightarrow> (\<forall>line \<in> set f. \<not> (\<exists>g. first_occurrence t line g))"
    unfolding first_revisions_def by blast
  then show ?thesis by (simp only: occurrence_first [symmetric]) blast
qed

text \<open>
  When no group is longer than the limit, the loop does not fail and folds \<open>max\<close> over
  the revisions of the matching lines.
\<close>

lemma scan_lines_fold:
  "\<forall>line \<in> set f. \<forall>g. search t line = Some g \<longrightarrow> length g \<le> int_max_str_digits \<Longrightarrow>
     scan_lines t max_rev f = Inr (fold max (matching_revisions t f) max_rev)"
proof (induction f arbitrary: max_rev)
  case Nil
  show ?case by (simp add: matching_revisions_def map_filter_simps)
next
  case (Cons line f)
  from Cons.prems
  have "\<forall>line \<in> set f. \<forall>g. search t line = Some g \<longrightarrow> length g \<le> int_max_str_digits"
    by simp
  then have rest: "\<And>m. scan_lines t m f = Inr (fold max (matching_revisions t f) m)"
    by (rule Cons.IH)
  show ?case
  proof (cases "search t line")
    case None
    then show ?thesis
      using rest by (simp add: matching_revisions_def map_filter_simps)
  next
    case (Some g)
    then have "length g \<le> int_max_str_digits" using Cons.prems by simp
    with Some have "py_int g = Inr (decimal g)" by (rule search_py_int)
    with Some show ?thesis
      using rest by (simp add: matching_revisions_def map_filter_simps max.commute)
  qed
qed

lemma matching_revisions_nonneg: "r \<in> set (matching_revisions t f) \<Longrightarrow> 0 \<le> r"
  by (auto simp: matching_revisions_def map_filter_def decimal_nonneg)

lemma fold_max_next:
  assumes "\<And>r. r \<in> set revs \<Longrightarrow> (0::int) \<le> r"
  shows "(if fold max revs 0 \<noteq> 0 then fold max revs 0 + 1 else 1) = next_revision (set revs)"
proof (cases revs)
  case Nil
  then show ?thesis by (simp add: next_revision_def)
next
  case (Cons r rs)
  have "fold max revs 0 = Max (set (0 # revs))"
    by (simp only: Max.set_eq_fold)
  also have "\<dots> = max 0 (Max (set revs))"
    using Cons by simp
  also have "\<dots> = Max (set revs)"
  proof -
    have "r \<le> Max (set revs)" using Cons by simp
    moreover have "0 \<le> r" using assms Cons by simp
    ultimately show ?thesis by simp
  qed
  finally show ?thesis using Cons by (simp add: next_revision_def)
qed

lemma get_latest_revision_next:
  assumes "fs outfile = Some f" and "str_int sid = Inr t"
    and "\<And>line g. line \<in> set f \<Longrightarrow> first_occurrence t line g \<Longrightarrow>
      length g \<le> int_max_str_digits"
  shows "get_latest_revision fs outfile sid = Inr (next_revision (first_revisions t f))"
proof -
  have "scan_lines t 0 f = Inr (fold max (matching_revisions t f) 0)"
    by (rule scan_lines_fold) (simp add: assms(3) search_first_occurrence)
  with assms(1,2) have "get_latest_revision fs outfile sid =
      Inr (if fold max (matching_revisions t f) 0 \<noteq> 0
           then fold max (matching_revisions t f) 0 + 1 else 1)"
    by (simp add: get_latest_revision_def)
  also have "\<dots> = Inr (next_revision (set (matching_revisions t f)))"
    using fold_max_next [of "matching_revisions t f"] matching_revisions_nonneg [of _ t f]
    by simp
  finally show ?thesis by (simp only: first_revisions_list)
qed

lemma search_Some_occurrence: "search t line = Some g \<Longrightarrow> \<exists>n g'. occurrence t line n g'"
  unfolding search_first_occurrence first_occurrence_def by blast

lemma search_None_occurrence: "search t line = None \<Longrightarrow> \<not> occurrence t line n g"
proof
  assume none: "search t line = None" and "occurrence t line n g"
  then have "\<exists>n g. occurrence t line n g" by blast
  then obtain g' where "first_occurrence t line g'"
    unfolding occurrence_first by blast
  then have "search t line = Some g'" by (simp only: search_first_occurrence)
  with none show False by simp
qed

text \<open>
  C1, amended: for a path with no file the lookup returns 1. For a file, let the
  identifier have a decimal text within the limit of 4300 digits, and let no line have a
  first occurrence of the marker with more digits than that. Then, if some line contains
  the marker \<^verbatim>\<open>sid:<ID>;\<close>, white space, \<^verbatim>\<open>rev:\<close> and digits, the lookup returns 1
  plus the largest of the numbers that the digits of the first marker of each such line
  denote, and if no line contains the marker it returns 1. The text of the identifier is
  its decimal numeral, and it exists exactly when the identifier is below \<open>10 ^ 4300\<close> in
  absolute value.
\<close>

theorem get_latest_revision_result:
  "(fs outfile = None \<longrightarrow> get_latest_revision fs outfile sid = Inr 1) \<and>
   (fs outfile = Some f \<longrightarrow> str_int sid = Inr t \<longrightarrow>
      (\<forall>line \<in> set f. \<forall>g. first_occurrence t line g \<longrightarrow> length g \<le> int_max_str_digits) \<longrightarrow>
      ((\<exists>line \<in> set f. \<exists>n g. occurrence t line n g) \<longrightarrow>
         get_latest_revision fs outfile sid = Inr (1 + Max (first_revisions t f))) \<and>
      ((\<forall>line \<in> set f. \<forall>n g. \<not> occurrence t line n g) \<longrightarrow>
         get_latest_revision fs outfile sid = Inr 1)) \<and>
   (str_int sid = Inr t \<longrightarrow> sid_numeral sid t) \<and>
   ((\<exists>t. str_int sid = Inr t) \<longleftrightarrow> \<bar>sid\<bar> < 10 ^ int_max_str_digits)"
proof (intro conjI impI)
  assume "fs outfile = None"
  then show "get_latest_revision fs outfile sid = Inr 1"
    by (simp add: get_latest_revision_def)
next
  assume f: "fs outfile = Some f" and t: "str_int sid = Inr t"
    and lim: "\<forall>line \<in> set f. \<forall>g. first_occurrence t line g \<longrightarrow> length g \<le> int_max_str_digits"
    and m: "\<exists>line \<in> set f. \<exists>n g. occurrence t line n g"
  from m have "first_revisions t f \<noteq> {}"
    by (simp only: first_revisions_empty) blast
  moreover have "get_latest_revision fs outfile sid = Inr (next_revision (first_revisions t f))"
    using f t lim by (intro get_latest_revision_next) blast+
  ultimately show "get_latest_revision fs outfile sid = Inr (1 + Max (first_revisions t f))"
    by (simp add: next_revision_def)
next
  assume f: "fs outfile = Some f" and t: "str_int sid = Inr t"
    and lim: "\<forall>line \<in> set f. \<forall>g. first_occurrence t line g \<longrightarrow> length g \<le> int_max_str_digits"
    and m: "\<forall>line \<in> set f. \<forall>n g. \<not> occurrence t line n g"
  from m have "first_revisions t f = {}"
    by (simp only: first_revisions_empty)
  moreover have "get_latest_revision fs outfile sid = Inr (next_revision (first_revisions t f))"
    using f t lim by (intro get_latest_revision_next) blast+
  ultimately show "get_latest_revision fs outfile sid = Inr 1"
    by (simp add: next_revision_def)
next
  assume "str_int sid = Inr t"
  then show "sid_numeral sid t" by (rule str_int_numeral)
next
  show "(\<exists>t. str_int sid = Inr t) \<longleftrightarrow> \<bar>sid\<bar> < 10 ^ int_max_str_digits"
    by (rule str_int_ok_iff)
qed

text \<open>
  C2, amended: for every file and identifier within the limit of 4300 digits, the result
  is 1 plus the largest revision number among the first occurrences of the marker in each
  line, and 1 when no line has an occurrence; later occurrences in a line play no part.
\<close>

theorem get_latest_revision_first_occurrence:
  "fs outfile = Some f \<Longrightarrow> str_int sid = Inr t \<Longrightarrow>
   \<forall>line \<in> set f. \<forall>g. first_occurrence t line g \<longrightarrow> length g \<le> int_max_str_digits \<Longrightarrow>
     sid_numeral sid t \<and>
     get_latest_revision fs outfile sid = Inr (next_revision (first_revisions t f))"
proof
  assume "str_int sid = Inr t"
  then show "sid_numeral sid t" by (rule str_int_numeral)
next
  assume "fs outfile = Some f" "str_int sid = Inr t"
    "\<forall>line \<in> set f. \<forall>g. first_occurrence t line g \<longrightarrow> length g \<le> int_max_str_digits"
  then show "get_latest_revision fs outfile sid = Inr (next_revision (first_revisions t f))"
    by (intro get_latest_revision_next) blast+
qed

lemma str_int_100: "str_int 100 = Inr ''100''"
  by code_simp

lemma str_int_200: "str_int 200 = Inr ''200''"
  by code_simp

lemma str_int_1: "str_int 1 = Inr ''1''"
  by code_simp

lemma search_rev3: "search ''100'' (''(sid:100; rev:3;)'' @ [CHR 0x0A]) = Some ''3''"
  by (simp add: match_here_def isspace_def whitespace_def isdecimal_def)

lemma search_rev7: "search ''100'' (''(sid:100;  rev:7;)'' @ [CHR 0x0A]) = Some ''7''"
  by (simp add: match_here_def isspace_def whitespace_def isdecimal_def)

lemma search_rev12: "search ''100'' (''(sid:100; rev:12;)'' @ [CHR 0x0A]) = Some ''12''"
  by (simp add: match_here_def isspace_def whitespace_def isdecimal_def)

lemma search_other3: "search ''200'' (''(sid:100; rev:3;)'' @ [CHR 0x0A]) = None"
  by (simp add: match_here_def)

lemma search_other7: "search ''200'' (''(sid:100;  rev:7;)'' @ [CHR 0x0A]) = None"
  by (simp add: match_here_def)

lemma decimal_examples: "decimal ''3'' = 3" "decimal ''7'' = 7" "decimal ''12'' = 12"
  by (simp_all add: decimal_def digit_value_def)

lemma first_revisions_example:
  "first_revisions ''100''
     [''(sid:100; rev:3;)'' @ [CHR 0x0A], ''(sid:100;  rev:7;)'' @ [CHR 0x0A]] = {3, 7}"
  unfolding first_revisions_list
  using search_rev3 search_rev7 decimal_examples
  by (simp add: matching_revisions_def map_filter_simps del: search.simps)

lemma first_revisions_example12:
  "first_revisions ''100'' [''(sid:100; rev:12;)'' @ [CHR 0x0A]] = {12}"
  unfolding first_revisions_list
  using search_rev12 decimal_examples
  by (simp add: matching_revisions_def map_filter_simps del: search.simps)

theorem get_latest_revision_result_witness:
  "get_latest_revision
     [''local.rules'' \<mapsto> [''(sid:100; rev:3;)'' @ [CHR 0x0A], ''(sid:100;  rev:7;)'' @ [CHR 0x0A]]]
     ''local.rules'' 100 = Inr 8 \<and>
   get_latest_revision
     [''local.rules'' \<mapsto> [''(sid:100; rev:3;)'' @ [CHR 0x0A], ''(sid:100;  rev:7;)'' @ [CHR 0x0A]]]
     ''local.rules'' 200 = Inr 1 \<and>
   get_latest_revision
     [''local.rules'' \<mapsto> [''(sid:100; rev:3;)'' @ [CHR 0x0A], ''(sid:100;  rev:7;)'' @ [CHR 0x0A]]]
     ''other.rules'' 100 = Inr 1 \<and>
   get_latest_revision
     [''local.rules'' \<mapsto> [''(sid:100; rev:12;)'' @ [CHR 0x0A]]] ''local.rules'' 100 = Inr 13"
proof -
  let ?f = "[''(sid:100; rev:3;)'' @ [CHR 0x0A], ''(sid:100;  rev:7;)'' @ [CHR 0x0A]]"
  let ?fs = "[''local.rules'' \<mapsto> ?f]"
  let ?h = "[''(sid:100; rev:12;)'' @ [CHR 0x0A]]"
  let ?hs = "[''local.rules'' \<mapsto> ?h]"
  have here: "?fs ''local.rules'' = Some ?f" by simp
  have absent: "?fs ''other.rules'' = None" by simp
  have hereh: "?hs ''local.rules'' = Some ?h" by simp
  have lim: "\<forall>line \<in> set ?f. \<forall>g. first_occurrence ''100'' line g \<longrightarrow> length g \<le> int_max_str_digits"
    unfolding search_first_occurrence [symmetric]
    using search_rev3 search_rev7 by (auto simp: int_max_str_digits_def simp del: search.simps)
  have lim2: "\<forall>line \<in> set ?f. \<forall>g. first_occurrence ''200'' line g \<longrightarrow> length g \<le> int_max_str_digits"
    unfolding search_first_occurrence [symmetric]
    using search_other3 search_other7 by (auto simp del: search.simps)
  have limh: "\<forall>line \<in> set ?h. \<forall>g. first_occurrence ''100'' line g \<longrightarrow> length g \<le> int_max_str_digits"
    unfolding search_first_occurrence [symmetric]
    using search_rev12 by (auto simp: int_max_str_digits_def simp del: search.simps)
  have hit: "\<exists>line \<in> set ?f. \<exists>n g. occurrence ''100'' line n g"
    using search_Some_occurrence [OF search_rev3] by simp
  have hith: "\<exists>line \<in> set ?h. \<exists>n g. occurrence ''100'' line n g"
    using search_Some_occurrence [OF search_rev12] by simp
  have miss: "\<forall>line \<in> set ?f. \<forall>n g. \<not> occurrence ''200'' line n g"
    using search_None_occurrence [OF search_other3] search_None_occurrence [OF search_other7]
    by simp
  have "get_latest_revision ?fs ''local.rules'' 100 =
      Inr (1 + Max (first_revisions ''100'' ?f))"
    using get_latest_revision_result [of ?fs "''local.rules''" 100 ?f "''100''",
        THEN conjunct2, THEN conjunct1] here str_int_100 lim hit
    by blast
  then have a: "get_latest_revision ?fs ''local.rules'' 100 = Inr 8"
    by (simp only: first_revisions_example) simp
  have b: "get_latest_revision ?fs ''local.rules'' 200 = Inr 1"
    using get_latest_revision_result [of ?fs "''local.rules''" 200 ?f "''200''",
        THEN conjunct2, THEN conjunct1] here str_int_200 lim2 miss
    by blast
  have c: "get_latest_revision ?fs ''other.rules'' 100 = Inr 1"
    using get_latest_revision_result [of ?fs "''other.rules''" 100 ?f "''100''",
        THEN conjunct1] absent
    by blast
  have "get_latest_revision ?hs ''local.rules'' 100 =
      Inr (1 + Max (first_revisions ''100'' ?h))"
    using get_latest_revision_result [of ?hs "''local.rules''" 100 ?h "''100''",
        THEN conjunct2, THEN conjunct1] hereh str_int_100 limh hith
    by blast
  then have d: "get_latest_revision ?hs ''local.rules'' 100 = Inr 13"
    by (simp only: first_revisions_example12) simp
  from a b c d show ?thesis by blast
qed

text \<open>
  C1, as stated, gives a result for every file and identifier. For a file whose line
  carries a revision of 4301 digits the conversion of the digits raises, and the lookup
  with it; so does the lookup of an identifier of 4301 digits in a file that exists.
\<close>

theorem get_latest_revision_digit_limit:
  "get_latest_revision
     [''local.rules'' \<mapsto> [''sid:1; rev:'' @ replicate 4301 (CHR ''1'')]] ''local.rules'' 1 =
   Inl DigitLimit \<and>
   get_latest_revision [''local.rules'' \<mapsto> []] ''local.rules'' (10 ^ int_max_str_digits) =
   Inl DigitLimit"
proof -
  define g where "g = replicate 4301 (CHR ''1'')"
  have g: "g \<noteq> []" "list_all isdecimal g" "length g = 4301"
    unfolding g_def by (simp_all add: list_all_iff isdecimal_def)
  have "''sid:1; rev:'' @ g = ''sid:'' @ ''1'' @ '';'' @ '' '' @ ''rev:'' @ g @ [] \<and>
      list_all isspace '' '' \<and> g \<noteq> [] \<and> list_all isdecimal g \<and>
      list_all (\<lambda>c. \<not> isdecimal c) (take 1 [])"
    using g isspace_blank by simp
  then have "marker ''1'' (''sid:1; rev:'' @ g) g"
    unfolding marker_def by blast
  then have "match_here ''1'' (''sid:1; rev:'' @ g) = Some g"
    by (simp only: match_here_marker)
  then have s: "search ''1'' (''sid:1; rev:'' @ g) = Some g"
    by simp
  have "py_int g = Inl DigitLimit"
    using py_int_decimal [OF g(1,2)] g(3) by (simp add: int_max_str_digits_def)
  with s have "scan_lines ''1'' 0 [''sid:1; rev:'' @ g] = Inl DigitLimit"
    by (simp del: search.simps)
  then have "get_latest_revision [''local.rules'' \<mapsto> [''sid:1; rev:'' @ g]] ''local.rules'' 1 =
      Inl DigitLimit"
    by (simp add: get_latest_revision_def str_int_1 del: scan_lines.simps)
  then have long_revision: "get_latest_revision
     [''local.rules'' \<mapsto> [''sid:1; rev:'' @ replicate 4301 (CHR ''1'')]] ''local.rules'' 1 =
     Inl DigitLimit"
    by (simp only: g_def)
  have "\<not> \<bar>(10::int) ^ int_max_str_digits\<bar> < 10 ^ int_max_str_digits" by simp
  then have "str_int (10 ^ int_max_str_digits) = Inl DigitLimit" by (rule str_int_limit)
  then have "get_latest_revision [''local.rules'' \<mapsto> []] ''local.rules''
      (10 ^ int_max_str_digits) = Inl DigitLimit"
    by (simp add: get_latest_revision_def)
  with long_revision show ?thesis by blast
qed

lemma search_two:
  "search ''100'' (''(sid:100; rev:13;) # sid:100; rev:27;'' @ [CHR 0x0A]) = Some ''13''"
  by (simp add: match_here_def isspace_def whitespace_def isdecimal_def)

lemma occurrences_two:
  "occurrences ''100'' (''(sid:100; rev:13;) # sid:100; rev:27;'' @ [CHR 0x0A]) =
     [''13'', ''27'']"
  by (simp add: match_here_def isspace_def whitespace_def isdecimal_def)

lemma decimal_two: "decimal ''13'' = 13" "decimal ''27'' = 27"
  by (simp_all add: decimal_def digit_value_def)

lemma first_revisions_two:
  "first_revisions ''100'' [''(sid:100; rev:13;) # sid:100; rev:27;'' @ [CHR 0x0A]] = {13}"
  unfolding first_revisions_list
  using search_two decimal_two
  by (simp add: matching_revisions_def map_filter_simps del: search.simps)

lemma all_revisions_two:
  "all_revisions ''100'' [''(sid:100; rev:13;) # sid:100; rev:27;'' @ [CHR 0x0A]] = {13, 27}"
  unfolding all_revisions_list
  using occurrences_two decimal_two
  by (simp del: occurrences.simps)

lemma limit_two:
  "\<forall>line \<in> set [''(sid:100; rev:13;) # sid:100; rev:27;'' @ [CHR 0x0A]].
     \<forall>g. first_occurrence ''100'' line g \<longrightarrow> length g \<le> int_max_str_digits"
  unfolding search_first_occurrence [symmetric]
  using search_two by (auto simp: int_max_str_digits_def simp del: search.simps)

theorem get_latest_revision_first_occurrence_witness:
  "get_latest_revision
     [''local.rules'' \<mapsto> [''(sid:100; rev:13;) # sid:100; rev:27;'' @ [CHR 0x0A]]]
     ''local.rules'' 100 = Inr 14"
proof -
  let ?f = "[''(sid:100; rev:13;) # sid:100; rev:27;'' @ [CHR 0x0A]]"
  let ?fs = "[''local.rules'' \<mapsto> ?f]"
  have here: "?fs ''local.rules'' = Some ?f" by simp
  have "get_latest_revision ?fs ''local.rules'' 100 =
      Inr (next_revision (first_revisions ''100'' ?f))"
    using get_latest_revision_first_occurrence [of ?fs "''local.rules''" ?f 100 "''100''"]
      here str_int_100 limit_two
    by blast
  then show ?thesis
    by (simp only: first_revisions_two) (simp add: next_revision_def)
qed

text \<open>
  C2, as stated, takes every occurrence of the marker in a line into account. For a file
  whose only line carries revision 13 first and revision 27 after it, the lookup returns
  14, while 1 plus the largest revision of all occurrences is 28.
\<close>

theorem get_latest_revision_later_occurrence_ignored:
  "get_latest_revision
     [''local.rules'' \<mapsto> [''(sid:100; rev:13;) # sid:100; rev:27;'' @ [CHR 0x0A]]]
     ''local.rules'' 100 \<noteq>
   Inr (next_revision
     (all_revisions ''100'' [''(sid:100; rev:13;) # sid:100; rev:27;'' @ [CHR 0x0A]]))"
proof -
  let ?f = "[''(sid:100; rev:13;) # sid:100; rev:27;'' @ [CHR 0x0A]]"
  let ?fs = "[''local.rules'' \<mapsto> ?f]"
  have here: "?fs ''local.rules'' = Some ?f" by simp
  have "get_latest_revision ?fs ''local.rules'' 100 =
      Inr (next_revision (first_revisions ''100'' ?f))"
    using get_latest_revision_next [of ?fs "''local.rules''" ?f 100 "''100''"]
      here str_int_100 limit_two
    by blast
  then have code: "get_latest_revision ?fs ''local.rules'' 100 = Inr 14"
    by (simp only: first_revisions_two) (simp add: next_revision_def)
  have "next_revision (all_revisions ''100'' ?f) = 28"
    by (simp only: all_revisions_two) (simp add: next_revision_def)
  with code show ?thesis by simp
qed

end
